theory Spec2Isabelle
  imports Complex_Main "HOL-Library.Sublist"
begin

section \<open>Value extraction: data model\<close>

text \<open>
  The exceptions the modelled Python code can raise.
\<close>

datatype py_error = AssertionError | KeyError | TypeError | ValueError

text \<open>
  A field of a measurement holds a number, a piece of text (text-extraction mode) or
  \<open>EMPTY_FIELD\<close>, which is Python's \<open>None\<close>. Python compares \<open>120\<close> and \<open>120.0\<close> as
  equal, so integers and floats share the constructor \<open>PyNum\<close>.
\<close>

datatype pyval = PyNone | PyNum real | PyStr string

text \<open>
  \<open>ValueMeasurement = namedtuple('ValueMeasurement', 'text start end num1 num2 cond
  matching_term')\<close>. Offsets come from \<open>match.start()\<close> and are never negative. The
  condition is \<open>None\<close> for a words-then-value match, which passes \<open>EMPTY_FIELD\<close>.
\<close>

record ValueMeasurement =
  vm_text :: string
  vm_start :: nat
  vm_end :: nat
  vm_num1 :: pyval
  vm_num2 :: pyval
  vm_cond :: "string option"
  vm_matching_term :: string

section \<open>Overlap resolution of the value extractor\<close>

text \<open>
  The body of \<open>if e1 > s2:\<close> in \<open>_resolve_overlap\<close>: which of the two overlapping
  results \<open>results[i]\<close> (first argument) and \<open>results[j]\<close> goes into the discard set.
\<close>

definition to_discard :: "ValueMeasurement \<Rightarrow> ValueMeasurement \<Rightarrow> ValueMeasurement" where
  "to_discard ri rj =
    (let s1 = vm_start ri; e1 = vm_end ri; s2 = vm_start rj; e2 = vm_end rj;
         term1 = vm_matching_term ri; term2 = vm_matching_term rj
     in if s1 = s2 \<and> e1 = e2 then
          (if length term1 > length term2 then rj else ri)
        else if suffix term2 (vm_text ri) then ri
        else (let span1 = (s1, s1 + length term1); span2 = (s2, s2 + length term2)
              in if fst span2 < snd span1 then
                   (if length term2 > length term1 then ri else rj)
                 else ri))"

text \<open>The loop \<open>for j in range(i+1, n)\<close> for a fixed \<open>results[i]\<close>, with its assertion.\<close>

fun inner_loop ::
  "ValueMeasurement \<Rightarrow> ValueMeasurement list \<Rightarrow> ValueMeasurement set
     \<Rightarrow> py_error + ValueMeasurement set" where
  "inner_loop ri [] discard_set = Inr discard_set"
| "inner_loop ri (rj # rest) discard_set =
    (if \<not> vm_start ri \<le> vm_start rj then Inl AssertionError
     else if vm_end ri > vm_start rj
       then inner_loop ri rest (insert (to_discard ri rj) discard_set)
       else inner_loop ri rest discard_set)"

text \<open>The loop \<open>for i in range(n)\<close>.\<close>

fun outer_loop ::
  "ValueMeasurement list \<Rightarrow> ValueMeasurement set \<Rightarrow> py_error + ValueMeasurement set" where
  "outer_loop [] discard_set = Inr discard_set"
| "outer_loop (ri # rest) discard_set =
    (case inner_loop ri rest discard_set of
       Inl e \<Rightarrow> Inl e
     | Inr d \<Rightarrow> outer_loop rest d)"

text \<open>
  \<open>_resolve_overlap(terms, results)\<close>. An empty list returns \<open>None\<close> (the bare
  \<open>return\<close>); otherwise the results outside the discard set are returned in order.
\<close>

definition resolve_overlap ::
  "string list \<Rightarrow> ValueMeasurement list \<Rightarrow> py_error + ValueMeasurement list option" where
  "resolve_overlap terms results =
    (if results = [] then Inr None
     else case outer_loop results {} of
            Inl e \<Rightarrow> Inl e
          | Inr discard_set \<Rightarrow>
              if discard_set = {} then Inr (Some results)
              else Inr (Some (filter (\<lambda>r. r \<notin> discard_set) results)))"

text \<open>Two results overlap partially: the first reaches into the second, spans differ.\<close>

definition partial_overlap :: "ValueMeasurement \<Rightarrow> ValueMeasurement \<Rightarrow> bool" where
  "partial_overlap ri rj \<longleftrightarrow>
     vm_end ri > vm_start rj \<and> \<not> (vm_start ri = vm_start rj \<and> vm_end ri = vm_end rj)"

text \<open>What the sweep collects on a sorted list (shown below): the losers of all
  overlapping pairs \<open>i < j\<close>.\<close>

definition losers :: "ValueMeasurement list \<Rightarrow> ValueMeasurement set" where
  "losers rs = {x. \<exists>a b. a < b \<and> b < length rs \<and> vm_end (rs ! a) > vm_start (rs ! b)
                    \<and> x = to_discard (rs ! a) (rs ! b)}"


section \<open>Strings\<close>

text \<open>
  Sentences and terms are modelled as ASCII strings. \<open>str.lower\<close> changes the letters
  \<open>A\<close> to \<open>Z\<close> only, and white space is what \<open>str.isspace\<close> and the regex class
  \<open>\s\<close> accept below code point 128.
\<close>

definition is_space :: "char \<Rightarrow> bool" where
  "is_space c \<longleftrightarrow> c \<in> set [CHR '' '', CHR 0x09, CHR 0x0A, CHR 0x0B, CHR 0x0C, CHR 0x0D,
                             CHR 0x1C, CHR 0x1D, CHR 0x1E, CHR 0x1F]"

definition is_digit :: "char \<Rightarrow> bool" where
  "is_digit c \<longleftrightarrow> c \<in> set ''0123456789''"

definition lower_char :: "char \<Rightarrow> char" where
  "lower_char c =
     (case map_of (zip ''ABCDEFGHIJKLMNOPQRSTUVWXYZ'' ''abcdefghijklmnopqrstuvwxyz'') c of
        Some l \<Rightarrow> l | None \<Rightarrow> c)"

definition lower :: "string \<Rightarrow> string" where
  "lower s = map lower_char s"

text \<open>\<open>s.strip()\<close>\<close>

definition strip :: "string \<Rightarrow> string" where
  "strip s = rev (dropWhile is_space (rev (dropWhile is_space s)))"

text \<open>\<open>s.split(sep)\<close> for a one-character separator: never an empty list.\<close>

fun split_on :: "char \<Rightarrow> string \<Rightarrow> string \<Rightarrow> string list" where
  "split_on sep cur [] = [cur]"
| "split_on sep cur (c # cs) =
     (if c = sep then cur # split_on sep [] cs else split_on sep (cur @ [c]) cs)"

definition split :: "char \<Rightarrow> string \<Rightarrow> string list" where
  "split sep s = split_on sep [] s"

text \<open>\<open>s[a:b]\<close> for offsets that are not negative.\<close>

definition slice :: "string \<Rightarrow> nat \<Rightarrow> nat \<Rightarrow> string" where
  "slice s a b = take (b - a) (drop a s)"

text \<open>
  \<open>re.split(r'[,;\s]+', s)\<close>: the pieces between maximal runs of separators. A sentence
  that starts or ends with a separator gives an empty first or last piece. The flag says
  that the previous character was a separator.
\<close>

definition is_sep :: "char \<Rightarrow> bool" where
  "is_sep c \<longleftrightarrow> c = CHR '','' \<or> c = CHR '';'' \<or> is_space c"

fun split_run :: "bool \<Rightarrow> string \<Rightarrow> string \<Rightarrow> string list" where
  "split_run insep cur [] = [cur]"
| "split_run insep cur (c # cs) =
     (if is_sep c then (if insep then split_run True cur cs else cur # split_run True [] cs)
      else split_run False (cur @ [c]) cs)"

definition re_split :: "string \<Rightarrow> string list" where
  "re_split s = split_run False [] s"

section \<open>The hypothetical filter\<close>

text \<open>
  The search for a result's words in the sentence's words: the first \<open>i\<close> in
  \<open>range(word_count - (r_word_count - 1))\<close> at which every \<open>words[i+j]\<close> starts with
  \<open>r_words[j]\<close>. A negative range bound is an empty range, as truncating subtraction gives.
\<close>

definition words_at :: "string list \<Rightarrow> string list \<Rightarrow> nat \<Rightarrow> bool" where
  "words_at words r_words i \<longleftrightarrow>
     list_all (\<lambda>j. prefix (r_words ! j) (words ! (i + j))) [0..<length r_words]"

definition find_span :: "string list \<Rightarrow> string \<Rightarrow> nat option" where
  "find_span words txt =
     (let r_words = re_split (lower txt)
      in find (words_at words r_words) [0..<length words - (length r_words - 1)])"

text \<open>\<open>result_spans\<close>: the start index and the result, for each result that was found.\<close>

definition result_spans :: "string list \<Rightarrow> ValueMeasurement list \<Rightarrow> (nat \<times> ValueMeasurement) list" where
  "result_spans words results =
     List.map_filter (\<lambda>r. map_option (\<lambda>i. (i, r)) (find_span words (vm_text r))) results"

text \<open>
  One round of the trigger scan at index \<open>i\<close>: the index at which the hypothetical window
  starts (\<open>i + word_offset\<close>), if \<open>words[i]\<close> starts a trigger.
\<close>

definition trigger_at :: "string list \<Rightarrow> nat \<Rightarrow> nat option" where
  "trigger_at words i =
     (let word_count = length words in
      if words ! i = ''call'' \<and> i < word_count - 1 \<and> words ! (i + 1) = ''for'' then Some (i + 1)
      else if words ! i = ''if'' then
        (if i > 0 \<and> words ! (i - 1) = ''know'' then None
         else if i < word_count - 1 \<and> words ! (i + 1) = ''negative'' then None
         else Some i)
      else if words ! i = ''in'' \<and> i < word_count - 2 \<and> words ! (i + 1) = ''case'' then Some (i + 1)
      else if words ! i = ''should'' then Some i
      else None)"

definition triggers :: "string list \<Rightarrow> nat list" where
  "triggers words = List.map_filter (trigger_at words) [0..<length words]"

definition WINDOW :: nat where
  "WINDOW = 6"

text \<open>
  The loop \<open>for hw in triggers: for rs in result_spans\<close>: the results that start inside
  a trigger's window.
\<close>

definition omit_results :: "nat list \<Rightarrow> (nat \<times> ValueMeasurement) list \<Rightarrow> ValueMeasurement set" where
  "omit_results trigs spans =
     set (concat (map (\<lambda>h_start.
            map snd (filter (\<lambda>(rs_start, r). \<not> rs_start < h_start \<and> rs_start - h_start < WINDOW)
                       spans))
          trigs))"

definition remove_hypotheticals :: "string \<Rightarrow> ValueMeasurement list \<Rightarrow> ValueMeasurement list" where
  "remove_hypotheticals sentence results =
     (let words = re_split (lower sentence);
          spans = result_spans words results;
          omit = omit_results (triggers words) spans
      in filter (\<lambda>r. r \<notin> omit) results)"

section \<open>The entry point of the value extractor\<close>

text \<open>
  One measurement of the output (\<open>VALUE_FIELDS\<close>) and the result dictionary
  (\<open>VALUE_RESULT_FIELDS\<close>).
\<close>

record Value =
  v_text :: string
  v_start :: nat
  v_end :: nat
  v_condition :: "string option"
  v_matchingTerm :: string
  v_x :: pyval
  v_y :: pyval
  v_minValue :: pyval
  v_maxValue :: pyval

record ValueResult =
  r_sentence :: string
  r_measurementCount :: nat
  r_terms :: "string list"
  r_querySuccess :: bool
  r_measurementList :: "Value list"

text \<open>
  What \<open>run\<close> returns: the constant \<open>EMPTY_RESULT = '{}'\<close>, or \<open>json.dumps\<close> of a result
  dictionary. \<open>json.dumps\<close> is deterministic and never gives \<open>'{}'\<close> for a dictionary with
  keys, so it is a constructor here. \<open>output_keys\<close> are the keys of the JSON object.
\<close>

datatype run_output = EMPTY_RESULT | Json_dumps ValueResult


text \<open>
  \<open>min([a, b])\<close> and \<open>max([a, b])\<close> on field values: numbers compare as numbers, strings
  by code points, anything else is a \<open>TypeError\<close>. On a tie both give the first.
\<close>

fun str_less :: "string \<Rightarrow> string \<Rightarrow> bool" where
  "str_less [] [] = False"
| "str_less [] (b # bs) = True"
| "str_less (a # as) [] = False"
| "str_less (a # as) (b # bs) =
     ((of_char a :: nat) < of_char b \<or> (a = b \<and> str_less as bs))"

fun py_min :: "pyval \<Rightarrow> pyval \<Rightarrow> py_error + pyval" where
  "py_min (PyNum a) (PyNum b) = Inr (if b < a then PyNum b else PyNum a)"
| "py_min (PyStr a) (PyStr b) = Inr (if str_less b a then PyStr b else PyStr a)"
| "py_min a b = Inl TypeError"

fun py_max :: "pyval \<Rightarrow> pyval \<Rightarrow> py_error + pyval" where
  "py_max (PyNum a) (PyNum b) = Inr (if a < b then PyNum b else PyNum a)"
| "py_max (PyStr a) (PyStr b) = Inr (if str_less a b then PyStr b else PyStr a)"
| "py_max a b = Inl TypeError"

text \<open>The body of the loop in \<open>_to_json\<close>: one measurement dictionary.\<close>

definition to_value ::
  "string \<Rightarrow> bool \<Rightarrow> (string \<rightharpoonup> string) \<Rightarrow> ValueMeasurement \<Rightarrow> py_error + Value" where
  "to_value original_sentence is_text term_dict m =
     (case term_dict (vm_matching_term m) of
        None \<Rightarrow> Inl KeyError
      | Some original_term \<Rightarrow>
          (let base = \<lparr>v_text = slice original_sentence (vm_start m) (vm_end m),
                       v_start = vm_start m, v_end = vm_end m, v_condition = vm_cond m,
                       v_matchingTerm = original_term, v_x = vm_num1 m, v_y = vm_num2 m,
                       v_minValue = PyNone, v_maxValue = PyNone\<rparr>
           in if is_text then Inr base
              else if vm_num2 m = PyNone then
                Inr (base\<lparr>v_minValue := vm_num1 m, v_maxValue := vm_num1 m\<rparr>)
              else
                (case py_min (vm_num1 m) (vm_num2 m) of
                   Inl e \<Rightarrow> Inl e
                 | Inr lo \<Rightarrow>
                     (case py_max (vm_num1 m) (vm_num2 m) of
                        Inl e \<Rightarrow> Inl e
                      | Inr hi \<Rightarrow> Inr (base\<lparr>v_minValue := lo, v_maxValue := hi\<rparr>)))))"

fun to_values ::
  "string \<Rightarrow> bool \<Rightarrow> (string \<rightharpoonup> string) \<Rightarrow> ValueMeasurement list
     \<Rightarrow> py_error + Value list" where
  "to_values original_sentence is_text term_dict [] = Inr []"
| "to_values original_sentence is_text term_dict (m # ms) =
     (case to_value original_sentence is_text term_dict m of
        Inl e \<Rightarrow> Inl e
      | Inr v \<Rightarrow>
          (case to_values original_sentence is_text term_dict ms of
             Inl e \<Rightarrow> Inl e
           | Inr vs \<Rightarrow> Inr (v # vs)))"

text \<open>\<open>_to_json(original_terms, original_sentence, results, is_text)\<close>\<close>

definition to_json ::
  "string list \<Rightarrow> string \<Rightarrow> ValueMeasurement list \<Rightarrow> bool \<Rightarrow> (string \<rightharpoonup> string)
     \<Rightarrow> py_error + run_output" where
  "to_json original_terms original_sentence results is_text term_dict =
     (case to_values original_sentence is_text term_dict results of
        Inl e \<Rightarrow> Inl e
      | Inr dict_list \<Rightarrow>
          Inr (Json_dumps \<lparr>r_sentence = original_sentence,
                           r_measurementCount = length results,
                           r_terms = original_terms,
                           r_querySuccess = (length results > 0),
                           r_measurementList = dict_list\<rparr>))"

text \<open>
  \<open>_common_clean\<close> on one string: the characters \<open>%(){}[]\<close> become blanks, and the text is
  lowered unless the match is case sensitive.
\<close>

definition common_clean :: "bool \<Rightarrow> string \<Rightarrow> string" where
  "common_clean is_case_sensitive txt =
     (let t = map (\<lambda>c. if c \<in> set ''%(){}[]'' then CHR '' '' else c) txt
      in if is_case_sensitive then t else lower t)"

text \<open>
  What the model takes as given. The date, size-measurement and time finders are external
  collaborators, and Python's \<open>float\<close> and the regular-expression engine are libraries:
  \<^item> \<open>float_of\<close> is \<open>float(s)\<close>, \<open>None\<close> where it raises \<open>ValueError\<close>;
  \<^item> \<open>erase_expressions\<close> is the rest of \<open>_clean_sentence\<close> after \<open>_common_clean\<close>:
    the spans of dates, sizes, times and durations overwritten with blanks;
  \<^item> \<open>match_values\<close> is the pattern matching of \<open>_extract_value\<close> for one query term on the
    cleaned sentence, in the order the candidates are appended.
  Every candidate is built with \<open>matching_term = query_term\<close>; the model sets the field.
  All three are functions of their arguments: the same call gives the same answer.
\<close>

record collaborators =
  float_of :: "string \<Rightarrow> real option"
  erase_expressions :: "string \<Rightarrow> string"
  match_values :: "string \<Rightarrow> string \<Rightarrow> real \<Rightarrow> real \<Rightarrow> bool \<Rightarrow> py_error + ValueMeasurement list"

definition clean_sentence :: "collaborators \<Rightarrow> string \<Rightarrow> bool \<Rightarrow> string" where
  "clean_sentence X sentence is_case_sensitive =
     erase_expressions X (common_clean is_case_sensitive sentence)"

text \<open>
  \<open>_extract_value\<close>: nothing is extracted from a sentence without digits; otherwise the
  candidates of the patterns go through the hypothetical filter.
\<close>

definition extract_value ::
  "collaborators \<Rightarrow> string \<Rightarrow> string \<Rightarrow> real \<Rightarrow> real \<Rightarrow> bool
     \<Rightarrow> py_error + ValueMeasurement list" where
  "extract_value X query_term sentence minval maxval denom_only =
     (if \<not> list_ex is_digit sentence then Inr []
      else case match_values X query_term sentence minval maxval denom_only of
             Inl e \<Rightarrow> Inl e
           | Inr found \<Rightarrow>
               Inr (remove_hypotheticals sentence
                      (map (\<lambda>m. m\<lparr>vm_matching_term := query_term\<rparr>) found)))"

text \<open>The loop \<open>for term in terms: results.extend(_extract_value(...))\<close>.\<close>

fun extract_all ::
  "collaborators \<Rightarrow> string list \<Rightarrow> string \<Rightarrow> real \<Rightarrow> real \<Rightarrow> bool
     \<Rightarrow> py_error + ValueMeasurement list" where
  "extract_all X [] sentence minval maxval denom_only = Inr []"
| "extract_all X (t # ts) sentence minval maxval denom_only =
     (case extract_value X t sentence minval maxval denom_only of
        Inl e \<Rightarrow> Inl e
      | Inr values \<Rightarrow>
          (case extract_all X ts sentence minval maxval denom_only of
             Inl e \<Rightarrow> Inl e
           | Inr later \<Rightarrow> Inr (values @ later)))"

subsection \<open>Text extraction\<close>

text \<open>
  \<open>re.finditer(re.escape(query_term), sentence)\<close>: the start offsets of the occurrences
  of the term, left to right and not overlapping. \<open>p\<close> is the offset of \<open>rest\<close> in the
  sentence. After an empty match the search moves on by one character.
\<close>

function find_literal :: "string \<Rightarrow> nat \<Rightarrow> string \<Rightarrow> nat list" where
  "find_literal lit p rest =
     (if prefix lit rest then
        p # (if lit = [] then (case rest of [] \<Rightarrow> [] | c # cs \<Rightarrow> find_literal lit (Suc p) cs)
             else find_literal lit (p + length lit) (drop (length lit) rest))
      else (case rest of [] \<Rightarrow> [] | c # cs \<Rightarrow> find_literal lit (Suc p) cs))"
  by pat_completeness auto
termination
  by (relation "measure (\<lambda>(lit, p, rest). length rest)") (auto simp: prefix_def)

declare find_literal.simps [simp del]

text \<open>
  The pattern after the term, \<open>(?P<words>\s*([-a-zA-Z:\d/\+()]+\s*){0,8})\<close>. Every part of
  it is optional and greedy and nothing follows it, so the match is the longest run of
  blanks, then up to eight times a longest run of value characters with the blanks after
  it. \<open>words_len\<close> is the length of that match at the front of \<open>rest\<close>.
\<close>

definition is_enum_char :: "char \<Rightarrow> bool" where
  "is_enum_char c \<longleftrightarrow>
     c \<in> set (''-abcdefghijklmnopqrstuvwxyzABCDEFGHIJKLMNOPQRSTUVWXYZ:0123456789/+()'')"

fun enum_words :: "nat \<Rightarrow> string \<Rightarrow> nat" where
  "enum_words 0 rest = 0"
| "enum_words (Suc n) rest =
     (if takeWhile is_enum_char rest = [] then 0
      else length (takeWhile is_enum_char rest)
           + length (takeWhile is_space (dropWhile is_enum_char rest))
           + enum_words n (dropWhile is_space (dropWhile is_enum_char rest)))"

definition words_len :: "string \<Rightarrow> nat" where
  "words_len rest =
     length (takeWhile is_space rest) + enum_words 8 (dropWhile is_space rest)"

text \<open>
  \<open>re.finditer(str_enum_query, sentence)\<close>: for each match its start, the start of the
  \<open>words\<close> group and its end. The search goes on at the end of the match.
\<close>

function enum_finditer :: "string \<Rightarrow> nat \<Rightarrow> string \<Rightarrow> (nat \<times> nat \<times> nat) list" where
  "enum_finditer query_term p rest =
     (if prefix query_term rest then
        (p, p + length query_term,
         p + length query_term + words_len (drop (length query_term) rest)) #
        (if length query_term + words_len (drop (length query_term) rest) = 0 then
           (case rest of [] \<Rightarrow> [] | c # cs \<Rightarrow> enum_finditer query_term (Suc p) cs)
         else enum_finditer query_term
                (p + length query_term + words_len (drop (length query_term) rest))
                (drop (length query_term + words_len (drop (length query_term) rest)) rest))
      else (case rest of [] \<Rightarrow> [] | c # cs \<Rightarrow> enum_finditer query_term (Suc p) cs))"
  by pat_completeness auto
termination
proof (relation "measure (\<lambda>(query_term, p, rest). length rest)")
  fix query_term :: string and p :: nat and rest :: string
  assume "prefix query_term rest"
    and "length query_term + words_len (drop (length query_term) rest) \<noteq> 0"
  then have "rest \<noteq> [] \<or> words_len (drop (length query_term) rest) \<noteq> 0"
    by auto
  moreover have "words_len [] = 0"
    by (simp add: words_len_def eval_nat_numeral)
  ultimately have "rest \<noteq> []"
    by (cases rest) auto
  then show "((query_term,
      p + length query_term + words_len (drop (length query_term) rest),
      drop (length query_term + words_len (drop (length query_term) rest)) rest),
     query_term, p, rest) \<in> measure (\<lambda>(query_term, p, rest). length rest)"
    using \<open>length query_term + words_len (drop (length query_term) rest) \<noteq> 0\<close>
    by simp
qed auto

declare enum_finditer.simps [simp del]

text \<open>\<open>words.find(fw)\<close>: the first offset at which \<open>fw\<close> occurs, \<open>None\<close> for \<open>-1\<close>.\<close>

definition str_find :: "string \<Rightarrow> string \<Rightarrow> nat option" where
  "str_find s fw = find (\<lambda>pos. prefix fw (drop pos s)) [0..<Suc (length s)]"

text \<open>\<open>boundaries.index(start)\<close>, \<open>None\<close> where it raises \<open>ValueError\<close>.\<close>

definition index_of :: "nat list \<Rightarrow> nat \<Rightarrow> nat option" where
  "index_of xs x = find (\<lambda>i. xs ! i = x) [0..<length xs]"

text \<open>
  The loop \<open>for fw in filter_words\<close> for one match: the flag \<open>found_it\<close> and the longest
  filter word found so far.
\<close>

fun filter_loop ::
  "string \<Rightarrow> nat \<Rightarrow> nat \<Rightarrow> string list \<Rightarrow> bool \<times> string \<Rightarrow> bool \<times> string" where
  "filter_loop words words_start end_pos [] (found_it, word) = (found_it, word)"
| "filter_loop words words_start end_pos (fw # fws) (found_it, word) =
     (case str_find words fw of
        Some pos \<Rightarrow>
          if words_start + pos < end_pos then
            filter_loop words words_start end_pos fws
              (True, if length fw > length word then fw else word)
          else filter_loop words words_start end_pos fws (found_it, word)
      | None \<Rightarrow> filter_loop words words_start end_pos fws (found_it, word))"

text \<open>
  The loop \<open>for match in iterator\<close> for one query term. \<open>found_it\<close> is set before this
  loop, not inside it: once a filter word was found for one match, every later match of
  the term appends a result.
\<close>

fun match_loop ::
  "string \<Rightarrow> string \<Rightarrow> string list \<Rightarrow> nat list \<Rightarrow> (nat \<times> nat \<times> nat) list \<Rightarrow> bool
     \<Rightarrow> ValueMeasurement list" where
  "match_loop query_term sentence filter_words boundaries [] found_it = []"
| "match_loop query_term sentence filter_words boundaries
       ((start, words_start, match_end) # matches) found_it =
     (case index_of boundaries start of
        None \<Rightarrow> match_loop query_term sentence filter_words boundaries matches found_it
      | Some index \<Rightarrow>
          (let end_pos = (if index < length boundaries - 1
                             \<and> match_end > boundaries ! (index + 1)
                          then boundaries ! (index + 1) else match_end);
               words = slice sentence words_start match_end;
               fw = filter_loop words words_start end_pos filter_words (found_it, [])
           in if fst fw then
                \<lparr>vm_text = snd fw, vm_start = start, vm_end = end_pos,
                  vm_num1 = PyStr (snd fw), vm_num2 = PyNone, vm_cond = Some ''EQUAL'',
                  vm_matching_term = query_term\<rparr>
                # match_loop query_term sentence filter_words boundaries matches True
              else match_loop query_term sentence filter_words boundaries matches False))"

text \<open>\<open>_extract_enumlist_values(query_terms, sentence, filter_words)\<close>\<close>

definition extract_enumlist_values ::
  "string list \<Rightarrow> string \<Rightarrow> string list \<Rightarrow> ValueMeasurement list" where
  "extract_enumlist_values query_terms sentence filter_words =
     (let boundaries = sort (concat (map (\<lambda>query_term. find_literal query_term 0 sentence)
                                         query_terms))
      in if length boundaries = 0 then []
         else concat (map (\<lambda>query_term.
                match_loop query_term sentence filter_words boundaries
                  (enum_finditer query_term 0 sentence) False)
              query_terms))"

text \<open>
  The \<open>enumlist\<close> argument: \<open>None\<close>, a comma-separated string, or a list. Python tests it
  for truth (\<open>if enumlist:\<close>) and, for the defaults of the bounds, for \<open>None\<close>.
\<close>

datatype enum_arg = EnumNone | EnumStr string | EnumList "string list"

fun truthy :: "enum_arg \<Rightarrow> bool" where
  "truthy EnumNone = False"
| "truthy (EnumStr s) = (s \<noteq> [])"
| "truthy (EnumList l) = (l \<noteq> [])"

fun enum_terms :: "enum_arg \<Rightarrow> string list" where
  "enum_terms EnumNone = []"
| "enum_terms (EnumStr s) = split CHR '','' s"
| "enum_terms (EnumList l) = l"

text \<open>\<open>str(sys.float_info.max)\<close>\<close>

definition float_max_str :: string where
  "float_max_str = ''1.7976931348623157e+308''"

text \<open>
  The range check on a bound: a fraction keeps its numerator, then \<open>float\<close>. A bound that
  is still \<open>None\<close> makes \<open>float\<close> raise \<open>TypeError\<close>.
\<close>

definition parse_bound :: "collaborators \<Rightarrow> string option \<Rightarrow> py_error + real" where
  "parse_bound X str_val =
     (case str_val of
        None \<Rightarrow> Inl TypeError
      | Some s \<Rightarrow>
          (let s' = (if CHR ''/'' \<in> set s then hd (split CHR ''/'' s) else s)
           in case float_of X s' of None \<Rightarrow> Inl ValueError | Some v \<Rightarrow> Inr v))"

text \<open>The arguments of \<open>run\<close>.\<close>

record run_args =
  term_string :: string
  sentence :: string
  str_minval :: "string option"
  str_maxval :: "string option"
  enumlist :: enum_arg
  is_case_sensitive :: bool
  is_denom_only :: bool

text \<open>
  The lines of \<open>run\<close> after the setup: from the extracted results to the output.
\<close>

definition finish ::
  "string list \<Rightarrow> string list \<Rightarrow> string \<Rightarrow> bool \<Rightarrow> (string \<rightharpoonup> string)
     \<Rightarrow> ValueMeasurement list \<Rightarrow> py_error + run_output" where
  "finish terms original_terms original_sentence is_text term_dict results =
     (if length results = 0 then Inr EMPTY_RESULT
      else case resolve_overlap terms (sort_key vm_start results) of
             Inl e \<Rightarrow> Inl e
           | Inr None \<Rightarrow> Inl TypeError
           | Inr (Some pruned) \<Rightarrow>
               to_json original_terms original_sentence pruned is_text term_dict)"

text \<open>
  The extraction step of \<open>run\<close>: text extraction when \<open>enumlist\<close> is given, otherwise the
  bounds are parsed and every term is searched in the cleaned sentence.
\<close>

definition extract_results ::
  "collaborators \<Rightarrow> run_args \<Rightarrow> string list \<Rightarrow> string list \<Rightarrow> string option \<Rightarrow> string option
     \<Rightarrow> py_error + ValueMeasurement list" where
  "extract_results X a terms filter_terms minv maxv =
     (if truthy (enumlist a) then
        Inr (extract_enumlist_values terms
               (clean_sentence X (sentence a) (is_case_sensitive a)) filter_terms)
      else
        (case parse_bound X minv of
           Inl e \<Rightarrow> Inl e
         | Inr minval \<Rightarrow>
             (case parse_bound X maxv of
                Inl e \<Rightarrow> Inl e
              | Inr maxval \<Rightarrow>
                  extract_all X terms (clean_sentence X (sentence a) (is_case_sensitive a))
                    minval maxval (is_denom_only a))))"

text \<open>
  The setup of \<open>run\<close>: the terms are split at commas, stripped and sorted from longest to
  shortest (a stable sort); these are the original terms. Cleaned and lowered they are
  the terms that are searched.
\<close>

definition original_terms_of :: "run_args \<Rightarrow> string list" where
  "original_terms_of a =
     sort_key (\<lambda>t. - int (length t)) (map strip (split CHR '','' (term_string a)))"

definition terms_of :: "run_args \<Rightarrow> string list" where
  "terms_of a =
     (let cleaned = map (common_clean (is_case_sensitive a)) (original_terms_of a)
      in if is_case_sensitive a then cleaned else map lower cleaned)"

definition filter_terms_of :: "run_args \<Rightarrow> string list" where
  "filter_terms_of a =
     (let filter_terms = map strip (enum_terms (enumlist a))
      in if is_case_sensitive a then filter_terms else map lower filter_terms)"

text \<open>The candidates of a call: the list \<open>results\<close> that \<open>run\<close> tests for emptiness.\<close>

definition candidates :: "collaborators \<Rightarrow> run_args \<Rightarrow> py_error + ValueMeasurement list" where
  "candidates X a =
     extract_results X a (terms_of a) (filter_terms_of a)
       (if enumlist a = EnumNone \<and> str_minval a = None
        then Some (''-'' @ float_max_str) else str_minval a)
       (if enumlist a = EnumNone \<and> str_maxval a = None
        then Some float_max_str else str_maxval a)"

text \<open>
  \<open>run\<close>, with the module-global \<open>_term_dict\<close> passed in and returned: the table maps each
  searched term to its original before anything is extracted.
\<close>

definition run ::
  "collaborators \<Rightarrow> run_args \<Rightarrow> (string \<rightharpoonup> string)
     \<Rightarrow> (py_error + run_output) \<times> (string \<rightharpoonup> string)" where
  "run X a term_dict0 =
     (let original_sentence = sentence a;
          original_terms = original_terms_of a;
          terms = terms_of a;
          term_dict = fold (\<lambda>(new_term, original_term) d. d(new_term \<mapsto> original_term))
                           (zip terms original_terms) term_dict0
      in case candidates X a of
           Inl e \<Rightarrow> (Inl e, term_dict)
         | Inr results \<Rightarrow>
             (finish terms original_terms original_sentence (truthy (enumlist a)) term_dict
                results,
              term_dict))"

section \<open>Example calls\<close>

text \<open>
  The call \<open>run('hr, rr', 'HR 60 RR 20', '0', '200')\<close>. The cleaned sentence is
  \<open>hr 60 rr 20\<close>: no date, size, time or duration is erased. The operator-value pattern
  matches \<open>hr 60\<close> for the term \<open>hr\<close> and \<open>rr 20\<close> for the term \<open>rr\<close>.
\<close>

definition hr_rr_finders :: collaborators where
  "hr_rr_finders =
     \<lparr>float_of = (\<lambda>s. if s = ''0'' then Some 0 else if s = ''200'' then Some 200 else None),
      erase_expressions = (\<lambda>s. s),
      match_values = (\<lambda>t s lo hi d.
         if s = ''hr 60 rr 20'' \<and> t = ''hr'' then
           Inr [\<lparr>vm_text = ''hr 60'', vm_start = 0, vm_end = 5, vm_num1 = PyNum 60,
                 vm_num2 = PyNone, vm_cond = Some ''EQUAL'', vm_matching_term = t\<rparr>]
         else if s = ''hr 60 rr 20'' \<and> t = ''rr'' then
           Inr [\<lparr>vm_text = ''rr 20'', vm_start = 6, vm_end = 11, vm_num1 = PyNum 20,
                 vm_num2 = PyNone, vm_cond = Some ''EQUAL'', vm_matching_term = t\<rparr>]
         else Inr [])\<rparr>"

definition hr_rr_args :: run_args where
  "hr_rr_args =
     \<lparr>term_string = ''hr, rr'', sentence = ''HR 60 RR 20'', str_minval = Some ''0'',
      str_maxval = Some ''200'', enumlist = EnumNone, is_case_sensitive = False,
      is_denom_only = False\<rparr>"



section \<open>Rules for evaluating the model on concrete calls\<close>

lemma remove_hypotheticals_unfold:
  "remove_hypotheticals s rs =
     filter (\<lambda>r. r \<notin> omit_results (triggers (re_split (lower s)))
                                   (result_spans (re_split (lower s)) rs)) rs"
  by (simp add: remove_hypotheticals_def Let_def)

lemmas text_eval = strip_def split_def is_space_def is_digit_def lower_def lower_char_def
  slice_def re_split_def is_sep_def common_clean_def

lemmas hyp_eval = remove_hypotheticals_unfold triggers_def trigger_at_def result_spans_def
  find_span_def words_at_def omit_results_def WINDOW_def List.map_filter_def

lemmas run_eval = finish_def to_json_def to_value_def parse_bound_def clean_sentence_def
  extract_value_def extract_enumlist_values_def resolve_overlap_def to_discard_def
  float_max_str_def

section \<open>Facts about the overlap sweep\<close>

lemma inner_loop_mono:
  "inner_loop ri rs d = Inr d' \<Longrightarrow> d \<subseteq> d'"
  by (induction rs arbitrary: d) (auto split: if_splits)

lemma outer_loop_mono:
  "outer_loop rs d = Inr d' \<Longrightarrow> d \<subseteq> d'"
proof (induction rs arbitrary: d)
  case Nil
  then show ?case by simp
next
  case (Cons r rs)
  then show ?case
    by (auto split: sum.splits dest!: inner_loop_mono)
qed

lemma inner_loop_sorted:
  "\<forall>r \<in> set rs. vm_start ri \<le> vm_start r \<Longrightarrow> \<exists>d'. inner_loop ri rs d = Inr d'"
  by (induction rs arbitrary: d) auto

lemma outer_loop_sorted:
  "sorted_wrt (\<lambda>a b. vm_start a \<le> vm_start b) rs \<Longrightarrow> \<exists>d'. outer_loop rs d = Inr d'"
proof (induction rs arbitrary: d)
  case Nil
  then show ?case by simp
next
  case (Cons r rs)
  then obtain d1 where "inner_loop r rs d = Inr d1"
    using inner_loop_sorted[of rs r d] by auto
  moreover obtain d2 where "outer_loop rs d1 = Inr d2"
    using Cons by auto
  ultimately show ?case by simp
qed

lemma inner_loop_hits:
  "inner_loop ri rs d = Inr d' \<Longrightarrow> rj \<in> set rs \<Longrightarrow> vm_end ri > vm_start rj
     \<Longrightarrow> to_discard ri rj \<in> d'"
proof (induction rs arbitrary: d)
  case Nil
  then show ?case by simp
next
  case (Cons r rs)
  show ?case
  proof (cases "rj = r")
    case True
    with Cons.prems have "inner_loop ri rs (insert (to_discard ri rj) d) = Inr d'"
      by (auto split: if_splits)
    then show ?thesis using inner_loop_mono by blast
  next
    case False
    with Cons show ?thesis by (auto split: if_splits)
  qed
qed

lemma outer_loop_hits:
  "outer_loop rs d = Inr d' \<Longrightarrow> i < j \<Longrightarrow> j < length rs
     \<Longrightarrow> vm_end (rs ! i) > vm_start (rs ! j)
     \<Longrightarrow> to_discard (rs ! i) (rs ! j) \<in> d'"
proof (induction rs arbitrary: d i j)
  case Nil
  then show ?case by simp
next
  case (Cons r rs)
  from Cons.prems(1) obtain d1 where
    d1: "inner_loop r rs d = Inr d1" and d2: "outer_loop rs d1 = Inr d'"
    by (auto split: sum.splits)
  from Cons.prems(2) obtain j' where j': "j = Suc j'" by (cases j) auto
  show ?case
  proof (cases i)
    case 0
    with Cons.prems j' have "rs ! j' \<in> set rs" "vm_end r > vm_start (rs ! j')"
      by auto
    then have "to_discard r (rs ! j') \<in> d1"
      using inner_loop_hits[OF d1] by blast
    with outer_loop_mono[OF d2] 0 j' show ?thesis by auto
  next
    case (Suc i')
    with Cons.prems j' have "i' < j'" "j' < length rs"
      "vm_end (rs ! i') > vm_start (rs ! j')" by auto
    from Cons.IH[OF d2 this] Suc j' show ?thesis by simp
  qed
qed

lemma resolve_overlap_result:
  assumes "outer_loop rs {} = Inr d" and "rs \<noteq> []"
  shows "resolve_overlap terms rs = Inr (Some (filter (\<lambda>r. r \<notin> d) rs))"
  using assms by (auto simp: resolve_overlap_def)


lemma inner_loop_only:
  "inner_loop ri rs d = Inr d' \<Longrightarrow> x \<in> d' \<Longrightarrow>
     x \<in> d \<or> (\<exists>k < length rs. vm_end ri > vm_start (rs ! k) \<and> x = to_discard ri (rs ! k))"
proof (induction rs arbitrary: d)
  case Nil
  then show ?case by simp
next
  case (Cons r rs)
  from Cons.prems(1) have ok: "vm_start ri \<le> vm_start r"
    by (auto split: if_splits)
  show ?case
  proof (cases "vm_end ri > vm_start r")
    case True
    with Cons.prems ok have "inner_loop ri rs (insert (to_discard ri r) d) = Inr d'"
      by simp
    from Cons.IH[OF this Cons.prems(2)]
    consider "x \<in> d" | "x = to_discard ri r"
      | k where "k < length rs" "vm_end ri > vm_start (rs ! k)" "x = to_discard ri (rs ! k)"
      by auto
    then show ?thesis
    proof cases
      case 1
      then show ?thesis by simp
    next
      case 2
      with True have "0 < length (r # rs) \<and> vm_end ri > vm_start ((r # rs) ! 0)
          \<and> x = to_discard ri ((r # rs) ! 0)" by simp
      then show ?thesis by blast
    next
      case 3
      then have "Suc k < length (r # rs) \<and> vm_end ri > vm_start ((r # rs) ! Suc k)
          \<and> x = to_discard ri ((r # rs) ! Suc k)" by simp
      then show ?thesis by blast
    qed
  next
    case False
    with Cons.prems ok have "inner_loop ri rs d = Inr d'" by simp
    from Cons.IH[OF this Cons.prems(2)]
    consider "x \<in> d"
      | k where "k < length rs" "vm_end ri > vm_start (rs ! k)" "x = to_discard ri (rs ! k)"
      by auto
    then show ?thesis
    proof cases
      case 1
      then show ?thesis by simp
    next
      case 2
      then have "Suc k < length (r # rs) \<and> vm_end ri > vm_start ((r # rs) ! Suc k)
          \<and> x = to_discard ri ((r # rs) ! Suc k)" by simp
      then show ?thesis by blast
    qed
  qed
qed

lemma outer_loop_only:
  "outer_loop rs d = Inr d' \<Longrightarrow> x \<in> d' \<Longrightarrow>
     x \<in> d \<or> (\<exists>a b. a < b \<and> b < length rs \<and> vm_end (rs ! a) > vm_start (rs ! b)
                  \<and> x = to_discard (rs ! a) (rs ! b))"
proof (induction rs arbitrary: d)
  case Nil
  then show ?case by simp
next
  case (Cons r rs)
  from Cons.prems(1) obtain d1 where
    d1: "inner_loop r rs d = Inr d1" and d2: "outer_loop rs d1 = Inr d'"
    by (auto split: sum.splits)
  from Cons.IH[OF d2 Cons.prems(2)]
  consider "x \<in> d1"
    | a b where "a < b" "b < length rs" "vm_end (rs ! a) > vm_start (rs ! b)"
        "x = to_discard (rs ! a) (rs ! b)"
    by auto
  then show ?case
  proof cases
    case 1
    from inner_loop_only[OF d1 1]
    consider "x \<in> d"
      | k where "k < length rs" "vm_end r > vm_start (rs ! k)" "x = to_discard r (rs ! k)"
      by auto
    then show ?thesis
    proof cases
      case 1
      then show ?thesis by simp
    next
      case 2
      then have "0 < Suc k \<and> Suc k < length (r # rs)
          \<and> vm_end ((r # rs) ! 0) > vm_start ((r # rs) ! Suc k)
          \<and> x = to_discard ((r # rs) ! 0) ((r # rs) ! Suc k)" by simp
      then show ?thesis by blast
    qed
  next
    case 2
    then have "Suc a < Suc b \<and> Suc b < length (r # rs)
        \<and> vm_end ((r # rs) ! Suc a) > vm_start ((r # rs) ! Suc b)
        \<and> x = to_discard ((r # rs) ! Suc a) ((r # rs) ! Suc b)" by simp
    then show ?thesis by blast
  qed
qed


lemma outer_loop_losers:
  assumes "outer_loop rs {} = Inr d"
  shows "d = losers rs"
proof
  show "d \<subseteq> losers rs"
    using outer_loop_only[OF assms] by (auto simp: losers_def)
  show "losers rs \<subseteq> d"
    using outer_loop_hits[OF assms] by (auto simp: losers_def)
qed

lemma resolve_overlap_sorted:
  assumes "sorted_wrt (\<lambda>a b. vm_start a \<le> vm_start b) rs" and "rs \<noteq> []"
  shows "resolve_overlap terms rs = Inr (Some (filter (\<lambda>r. r \<notin> losers rs) rs))"
proof -
  obtain d where d: "outer_loop rs {} = Inr d"
    using outer_loop_sorted[OF assms(1)] by blast
  with outer_loop_losers[OF d] resolve_overlap_result[OF d assms(2)] show ?thesis by simp
qed

section \<open>Claim C1: the suffix rule of the overlap resolver\<close>

text \<open>
  C1, as the code has it. The test is \<open>results[i].text.endswith(term2)\<close>: it reads the
  matched text of the \<^emph>\<open>earlier\<close> result and the matching term of the \<^emph>\<open>later\<close> one.
  For results sorted by start offset (what \<open>run\<close> passes, and what the sweep asserts),
  whenever two results overlap partially and the earlier result's matched text ends with
  the later result's matching term, the earlier result is discarded: it is absent from the
  returned list. The later result is kept exactly when no other overlapping pair's
  decision discards it; in particular it is kept when these two are the only results.
\<close>

theorem resolve_overlap_suffix_rule:
  assumes "sorted_wrt (\<lambda>a b. vm_start a \<le> vm_start b) rs"
    and "i < j" and "j < length rs"
    and "partial_overlap (rs ! i) (rs ! j)"
    and "suffix (vm_matching_term (rs ! j)) (vm_text (rs ! i))"
  shows "\<exists>out. resolve_overlap terms rs = Inr (Some out) \<and> rs ! i \<notin> set out \<and>
           (rs ! j \<in> set out \<longleftrightarrow>
              \<not> (\<exists>a b. a < b \<and> b < length rs \<and> vm_end (rs ! a) > vm_start (rs ! b)
                     \<and> (a, b) \<noteq> (i, j) \<and> to_discard (rs ! a) (rs ! b) = rs ! j))"
proof -
  let ?out = "filter (\<lambda>r. r \<notin> losers rs) rs"
  have ne: "rs \<noteq> []" using assms(3) by auto
  have res: "resolve_overlap terms rs = Inr (Some ?out)"
    by (rule resolve_overlap_sorted[OF assms(1) ne])
  have ov: "vm_end (rs ! i) > vm_start (rs ! j)"
    using assms(4) by (simp add: partial_overlap_def)
  have td: "to_discard (rs ! i) (rs ! j) = rs ! i"
    using assms(4,5) by (auto simp: to_discard_def partial_overlap_def Let_def)
  have diff: "rs ! i \<noteq> rs ! j"
    using assms(4) by (auto simp: partial_overlap_def)
  have "rs ! i \<in> losers rs"
    unfolding losers_def using assms(2,3) ov td by force
  then have gone: "rs ! i \<notin> set ?out" by simp
  have jin: "rs ! j \<in> set rs" using assms(3) by simp
  have "rs ! j \<in> losers rs \<longleftrightarrow>
      (\<exists>a b. a < b \<and> b < length rs \<and> vm_end (rs ! a) > vm_start (rs ! b)
             \<and> (a, b) \<noteq> (i, j) \<and> to_discard (rs ! a) (rs ! b) = rs ! j)"
    (is "?L \<longleftrightarrow> ?R")
  proof
    assume ?L
    then obtain a b where ab: "a < b" "b < length rs" "vm_end (rs ! a) > vm_start (rs ! b)"
      "rs ! j = to_discard (rs ! a) (rs ! b)"
      unfolding losers_def by blast
    have "(a, b) \<noteq> (i, j)"
    proof
      assume "(a, b) = (i, j)"
      with ab(4) td diff show False by simp
    qed
    with ab show ?R by metis
  next
    assume ?R
    then show ?L unfolding losers_def by force
  qed
  with jin have "rs ! j \<in> set ?out \<longleftrightarrow>
      \<not> (\<exists>a b. a < b \<and> b < length rs \<and> vm_end (rs ! a) > vm_start (rs ! b)
             \<and> (a, b) \<noteq> (i, j) \<and> to_discard (rs ! a) (rs ! b) = rs ! j)"
    by simp
  with res gone show ?thesis by blast
qed

text \<open>
  The docstring's example: terms \<open>rr, sao2\<close> on \<open>bp 120/80 hr 60-80s rr  sao2 96  6l nc.\<close>
  The match for \<open>rr\<close> runs into the \<open>2\<close> of \<open>sao2\<close> and is discarded; the match for
  \<open>sao2\<close> is the only other result and is kept.
\<close>

theorem resolve_overlap_suffix_rule_witness:
  "sorted_wrt (\<lambda>a b. vm_start a \<le> vm_start b)
     [\<lparr>vm_text = ''rr  sao2'', vm_start = 20, vm_end = 28, vm_num1 = PyNum 2,
        vm_num2 = PyNone, vm_cond = Some ''EQUAL'', vm_matching_term = ''rr''\<rparr>,
      \<lparr>vm_text = ''sao2 96'', vm_start = 24, vm_end = 31, vm_num1 = PyNum 96,
        vm_num2 = PyNone, vm_cond = Some ''EQUAL'', vm_matching_term = ''sao2''\<rparr>]
   \<and> partial_overlap
     \<lparr>vm_text = ''rr  sao2'', vm_start = 20, vm_end = 28, vm_num1 = PyNum 2,
        vm_num2 = PyNone, vm_cond = Some ''EQUAL'', vm_matching_term = ''rr''\<rparr>
     \<lparr>vm_text = ''sao2 96'', vm_start = 24, vm_end = 31, vm_num1 = PyNum 96,
        vm_num2 = PyNone, vm_cond = Some ''EQUAL'', vm_matching_term = ''sao2''\<rparr>
   \<and> suffix ''sao2'' ''rr  sao2''
   \<and> resolve_overlap [''sao2'', ''rr'']
     [\<lparr>vm_text = ''rr  sao2'', vm_start = 20, vm_end = 28, vm_num1 = PyNum 2,
        vm_num2 = PyNone, vm_cond = Some ''EQUAL'', vm_matching_term = ''rr''\<rparr>,
      \<lparr>vm_text = ''sao2 96'', vm_start = 24, vm_end = 31, vm_num1 = PyNum 96,
        vm_num2 = PyNone, vm_cond = Some ''EQUAL'', vm_matching_term = ''sao2''\<rparr>]
     = Inr (Some
     [\<lparr>vm_text = ''sao2 96'', vm_start = 24, vm_end = 31, vm_num1 = PyNum 96,
        vm_num2 = PyNone, vm_cond = Some ''EQUAL'', vm_matching_term = ''sao2''\<rparr>])"
proof -
  let ?r1 = "\<lparr>vm_text = ''rr  sao2'', vm_start = 20, vm_end = 28, vm_num1 = PyNum 2,
        vm_num2 = PyNone, vm_cond = Some ''EQUAL'', vm_matching_term = ''rr''\<rparr>"
  let ?r2 = "\<lparr>vm_text = ''sao2 96'', vm_start = 24, vm_end = 31, vm_num1 = PyNum 96,
        vm_num2 = PyNone, vm_cond = Some ''EQUAL'', vm_matching_term = ''sao2''\<rparr>"
  have s: "sorted_wrt (\<lambda>a b. vm_start a \<le> vm_start b) [?r1, ?r2]" by simp
  have p: "partial_overlap ([?r1, ?r2] ! 0) ([?r1, ?r2] ! 1)"
    by (simp add: partial_overlap_def)
  have e: "suffix (vm_matching_term ([?r1, ?r2] ! 1)) (vm_text ([?r1, ?r2] ! 0))"
    by (simp add: suffix_to_prefix)
  have lt: "(0::nat) < 1" "1 < length [?r1, ?r2]" by simp_all
  have comp: "resolve_overlap [''sao2'', ''rr''] [?r1, ?r2] = Inr (Some [?r2])"
    by (simp add: resolve_overlap_def to_discard_def Let_def suffix_to_prefix)
  from resolve_overlap_suffix_rule[OF s lt p e, of "[''sao2'', ''rr'']"]
  obtain out where o: "resolve_overlap [''sao2'', ''rr''] [?r1, ?r2] = Inr (Some out)"
    and n: "[?r1, ?r2] ! 0 \<notin> set out"
    by blast
  from o comp have "out = [?r2]" by simp
  with o s p e show ?thesis by simp
qed

text \<open>
  C1 as the spec words it reads the texts the other way round (the \<^emph>\<open>later\<close> result's text
  ends with the \<^emph>\<open>earlier\<close> result's term). First part: terms \<open>fev1, fev\<close> on the sentence
  \<open>fev1 is 80\<close> give the two results below, \<open>fev1 is 80\<close> for \<open>fev1\<close> and \<open>fev1\<close> for
  \<open>fev\<close> (the value \<open>1\<close>). The later text ends with the earlier term, the terms overlap and
  the later term is the shorter one: the code keeps the earlier result and discards the
  later one.

  Second part: even in the code's own direction the later result need not survive. Terms
  \<open>rr, sao2, fio2\<close> on \<open>rr  sao2 fio2 40\<close> give three results; the first ends with the
  second's term and is discarded, and the second ends with the third's term and is
  discarded too, so only the third is returned.
\<close>

theorem resolve_overlap_spec_direction_counterexample:
  "(partial_overlap
     \<lparr>vm_text = ''fev1 is 80'', vm_start = 0, vm_end = 10, vm_num1 = PyNum 80,
        vm_num2 = PyNone, vm_cond = Some ''EQUAL'', vm_matching_term = ''fev1''\<rparr>
     \<lparr>vm_text = ''fev1'', vm_start = 0, vm_end = 4, vm_num1 = PyNum 1,
        vm_num2 = PyNone, vm_cond = Some ''EQUAL'', vm_matching_term = ''fev''\<rparr>
   \<and> suffix ''fev1'' ''fev1''
   \<and> resolve_overlap [''fev1'', ''fev'']
     [\<lparr>vm_text = ''fev1 is 80'', vm_start = 0, vm_end = 10, vm_num1 = PyNum 80,
        vm_num2 = PyNone, vm_cond = Some ''EQUAL'', vm_matching_term = ''fev1''\<rparr>,
      \<lparr>vm_text = ''fev1'', vm_start = 0, vm_end = 4, vm_num1 = PyNum 1,
        vm_num2 = PyNone, vm_cond = Some ''EQUAL'', vm_matching_term = ''fev''\<rparr>]
     = Inr (Some
     [\<lparr>vm_text = ''fev1 is 80'', vm_start = 0, vm_end = 10, vm_num1 = PyNum 80,
        vm_num2 = PyNone, vm_cond = Some ''EQUAL'', vm_matching_term = ''fev1''\<rparr>]))
   \<and>
   (partial_overlap
     \<lparr>vm_text = ''rr  sao2'', vm_start = 0, vm_end = 8, vm_num1 = PyNum 2,
        vm_num2 = PyNone, vm_cond = Some ''EQUAL'', vm_matching_term = ''rr''\<rparr>
     \<lparr>vm_text = ''sao2 fio2'', vm_start = 4, vm_end = 13, vm_num1 = PyNum 2,
        vm_num2 = PyNone, vm_cond = Some ''EQUAL'', vm_matching_term = ''sao2''\<rparr>
   \<and> suffix ''sao2'' ''rr  sao2''
   \<and> resolve_overlap [''sao2'', ''fio2'', ''rr'']
     [\<lparr>vm_text = ''rr  sao2'', vm_start = 0, vm_end = 8, vm_num1 = PyNum 2,
        vm_num2 = PyNone, vm_cond = Some ''EQUAL'', vm_matching_term = ''rr''\<rparr>,
      \<lparr>vm_text = ''sao2 fio2'', vm_start = 4, vm_end = 13, vm_num1 = PyNum 2,
        vm_num2 = PyNone, vm_cond = Some ''EQUAL'', vm_matching_term = ''sao2''\<rparr>,
      \<lparr>vm_text = ''fio2 40'', vm_start = 9, vm_end = 16, vm_num1 = PyNum 40,
        vm_num2 = PyNone, vm_cond = Some ''EQUAL'', vm_matching_term = ''fio2''\<rparr>]
     = Inr (Some
     [\<lparr>vm_text = ''fio2 40'', vm_start = 9, vm_end = 16, vm_num1 = PyNum 40,
        vm_num2 = PyNone, vm_cond = Some ''EQUAL'', vm_matching_term = ''fio2''\<rparr>]))"
  by (simp add: partial_overlap_def resolve_overlap_def to_discard_def Let_def
      suffix_to_prefix)

section \<open>Claim C2: the returned measurements do not overlap\<close>

lemma to_discard_cases: "to_discard ri rj = ri \<or> to_discard ri rj = rj"
  by (simp add: to_discard_def Let_def)

lemma losers_pairs:
  "sorted_wrt (\<lambda>x y. x \<in> losers rs \<or> y \<in> losers rs \<or> vm_end x \<le> vm_start y) rs"
proof -
  have "x \<in> losers rs \<or> y \<in> losers rs \<or> vm_end x \<le> vm_start y"
    if "i < j" "j < length rs" "x = rs ! i" "y = rs ! j" for i j x y
  proof (cases "vm_end x > vm_start y")
    case True
    with that have "to_discard x y \<in> losers rs"
      unfolding losers_def by blast
    with to_discard_cases[of x y] show ?thesis by auto
  next
    case False
    then show ?thesis by simp
  qed
  then show ?thesis
    unfolding sorted_wrt_iff_nth_less by blast
qed

lemma survivors_disjoint:
  "sorted_wrt (\<lambda>x y. vm_end x \<le> vm_start y) (filter (\<lambda>r. r \<notin> losers rs) rs)"
proof -
  have "sorted_wrt (\<lambda>x y. x \<in> losers rs \<or> y \<in> losers rs \<or> vm_end x \<le> vm_start y)
          (filter (\<lambda>r. r \<notin> losers rs) rs)"
    using losers_pairs[of rs] by (rule sorted_wrt_filter)
  then show ?thesis
    by (rule sorted_wrt_mono_rel[rotated]) auto
qed

lemma to_value_span:
  "to_value s is_text td m = Inr v \<Longrightarrow> v_start v = vm_start m \<and> v_end v = vm_end m"
  by (auto simp: to_value_def Let_def split: option.splits if_splits sum.splits)

lemma to_values_spans:
  "to_values s is_text td ms = Inr vs \<Longrightarrow>
     length vs = length ms \<and>
     (\<forall>k < length ms. v_start (vs ! k) = vm_start (ms ! k) \<and> v_end (vs ! k) = vm_end (ms ! k))"
proof (induction ms arbitrary: vs)
  case Nil
  then show ?case by simp
next
  case (Cons m ms)
  from Cons.prems obtain v vs' where
    v: "to_value s is_text td m = Inr v" and vs': "to_values s is_text td ms = Inr vs'"
    and eq: "vs = v # vs'"
    by (auto split: sum.splits)
  from Cons.IH[OF vs'] to_value_span[OF v] eq show ?case
    by (auto simp: nth_Cons split: nat.splits)
qed

lemma finish_disjoint:
  assumes "finish terms original_terms s is_text td results = Inr (Json_dumps res)"
    and "i < j" and "j < length (r_measurementList res)"
  shows "v_end (r_measurementList res ! i) \<le> v_start (r_measurementList res ! j)"
proof -
  let ?rs = "sort_key vm_start results"
  let ?pruned = "filter (\<lambda>r. r \<notin> losers ?rs) ?rs"
  from assms(1) have ne: "results \<noteq> []"
    by (auto simp: finish_def)
  then have ne': "?rs \<noteq> []"
    by (metis length_0_conv length_sort)
  have "sorted (map vm_start ?rs)" by (rule sorted_sort_key)
  then have "sorted_wrt (\<lambda>a b. vm_start a \<le> vm_start b) ?rs"
    by (simp add: sorted_map)
  from resolve_overlap_sorted[OF this ne', of terms]
  have ro: "resolve_overlap terms ?rs = Inr (Some ?pruned)" .
  with assms(1) ne have tj: "to_json original_terms s ?pruned is_text td = Inr (Json_dumps res)"
    by (simp add: finish_def)
  then obtain vs where vs: "to_values s is_text td ?pruned = Inr vs"
    and res: "r_measurementList res = vs"
    by (auto simp: to_json_def split: sum.splits)
  from to_values_spans[OF vs] have len: "length vs = length ?pruned"
    and sp: "\<And>k. k < length ?pruned \<Longrightarrow>
               v_start (vs ! k) = vm_start (?pruned ! k) \<and> v_end (vs ! k) = vm_end (?pruned ! k)"
    by auto
  from assms(2,3) res len have ij: "i < j" "j < length ?pruned" by auto
  with survivors_disjoint[of ?rs] have "vm_end (?pruned ! i) \<le> vm_start (?pruned ! j)"
    unfolding sorted_wrt_iff_nth_less by blast
  with sp[of i] sp[of j] ij res show ?thesis by simp
qed

lemma run_output_finish:
  assumes "fst (run X a d0) = Inr out"
  shows "\<exists>terms original_terms is_text td results.
           finish terms original_terms (sentence a) is_text td results = Inr out"
  using assms unfolding run_def Let_def
  by (simp split: sum.splits) blast

text \<open>
  C2. Whenever \<open>run\<close> returns a measurement list, any two of its measurements are disjoint:
  the one that comes first in the list ends at or before the start of the other. This
  holds whatever the patterns matched, since every overlapping pair of the sorted
  candidates loses one member.
\<close>

theorem run_measurements_do_not_overlap:
  assumes "fst (run X a d0) = Inr (Json_dumps res)"
    and "i < j" and "j < length (r_measurementList res)"
  shows "v_end (r_measurementList res ! i) \<le> v_start (r_measurementList res ! j)"
proof -
  from run_output_finish[OF assms(1)] obtain terms original_terms is_text td results where
    "finish terms original_terms (sentence a) is_text td results = Inr (Json_dumps res)"
    by blast
  from finish_disjoint[OF this assms(2,3)] show ?thesis .
qed

text \<open>The call \<open>run('hr, rr', 'HR 60 RR 20', '0', '200')\<close> returns two measurements.\<close>

theorem run_measurements_do_not_overlap_witness:
  "fst (run hr_rr_finders hr_rr_args Map.empty) = Inr (Json_dumps
     \<lparr>r_sentence = ''HR 60 RR 20'', r_measurementCount = 2, r_terms = [''hr'', ''rr''],
       r_querySuccess = True,
       r_measurementList =
         [\<lparr>v_text = ''HR 60'', v_start = 0, v_end = 5, v_condition = Some ''EQUAL'',
            v_matchingTerm = ''hr'', v_x = PyNum 60, v_y = PyNone, v_minValue = PyNum 60,
            v_maxValue = PyNum 60\<rparr>,
          \<lparr>v_text = ''RR 20'', v_start = 6, v_end = 11, v_condition = Some ''EQUAL'',
            v_matchingTerm = ''rr'', v_x = PyNum 20, v_y = PyNone, v_minValue = PyNum 20,
            v_maxValue = PyNum 20\<rparr>]\<rparr>)
   \<and> v_end \<lparr>v_text = ''HR 60'', v_start = 0, v_end = 5, v_condition = Some ''EQUAL'',
            v_matchingTerm = ''hr'', v_x = PyNum 60, v_y = PyNone, v_minValue = PyNum 60,
            v_maxValue = PyNum 60\<rparr>
     \<le> v_start \<lparr>v_text = ''RR 20'', v_start = 6, v_end = 11, v_condition = Some ''EQUAL'',
            v_matchingTerm = ''rr'', v_x = PyNum 20, v_y = PyNone, v_minValue = PyNum 20,
            v_maxValue = PyNum 20\<rparr>"
proof -
  let ?res = "\<lparr>r_sentence = ''HR 60 RR 20'', r_measurementCount = 2, r_terms = [''hr'', ''rr''],
       r_querySuccess = True,
       r_measurementList =
         [\<lparr>v_text = ''HR 60'', v_start = 0, v_end = 5, v_condition = Some ''EQUAL'',
            v_matchingTerm = ''hr'', v_x = PyNum 60, v_y = PyNone, v_minValue = PyNum 60,
            v_maxValue = PyNum 60\<rparr>,
          \<lparr>v_text = ''RR 20'', v_start = 6, v_end = 11, v_condition = Some ''EQUAL'',
            v_matchingTerm = ''rr'', v_x = PyNum 20, v_y = PyNone, v_minValue = PyNum 20,
            v_maxValue = PyNum 20\<rparr>]\<rparr>"
  have h: "fst (run hr_rr_finders hr_rr_args Map.empty) = Inr (Json_dumps ?res)"
    unfolding run_def candidates_def terms_of_def original_terms_of_def filter_terms_of_def
      extract_results_def Let_def
    by (simp add: hr_rr_finders_def hr_rr_args_def run_eval text_eval hyp_eval Let_def)
  have lt: "(0::nat) < 1" "1 < length (r_measurementList ?res)" by simp_all
  from run_measurements_do_not_overlap[OF h lt]
  have "v_end (r_measurementList ?res ! 0) \<le> v_start (r_measurementList ?res ! 1)" .
  with h show ?thesis by simp
qed

section \<open>Claim C9: the output does not depend on the state of the term table\<close>

lemma fold_upd_other:
  "k \<notin> fst ` set kvs \<Longrightarrow>
     fold (\<lambda>(new_term, original_term) d. d(new_term \<mapsto> original_term)) kvs d k = d k"
  by (induction kvs arbitrary: d) (auto simp: case_prod_beta)

lemma fold_upd_agree:
  "k \<in> fst ` set kvs \<Longrightarrow>
     fold (\<lambda>(new_term, original_term) d. d(new_term \<mapsto> original_term)) kvs d k =
     fold (\<lambda>(new_term, original_term) d. d(new_term \<mapsto> original_term)) kvs d' k"
proof (induction kvs arbitrary: d d')
  case Nil
  then show ?case by simp
next
  case (Cons kv kvs)
  let ?F = "\<lambda>(new_term, original_term) d. d(new_term \<mapsto> original_term)"
  show ?case
  proof (cases "k \<in> fst ` set kvs")
    case True
    from Cons.IH[OF this] show ?thesis by simp
  next
    case False
    with Cons.prems have k: "k = fst kv" by auto
    have h: "fold ?F (kv # kvs) e k = Some (snd kv)" for e
    proof -
      have "fold ?F (kv # kvs) e k = fold ?F kvs (?F kv e) k" by simp
      also have "\<dots> = (?F kv e) k" using False by (rule fold_upd_other)
      also have "\<dots> = Some (snd kv)" by (simp add: k case_prod_beta)
      finally show ?thesis .
    qed
    show ?thesis by (simp only: h)
  qed
qed

lemma to_value_cong:
  "td (vm_matching_term m) = td' (vm_matching_term m) \<Longrightarrow>
     to_value s is_text td m = to_value s is_text td' m"
  by (simp add: to_value_def)

lemma to_values_cong:
  "(\<And>m. m \<in> set ms \<Longrightarrow> td (vm_matching_term m) = td' (vm_matching_term m)) \<Longrightarrow>
     to_values s is_text td ms = to_values s is_text td' ms"
proof (induction ms)
  case Nil
  then show ?case by simp
next
  case (Cons m ms)
  have "to_value s is_text td m = to_value s is_text td' m"
    by (rule to_value_cong) (simp add: Cons.prems)
  moreover have "to_values s is_text td ms = to_values s is_text td' ms"
    by (rule Cons.IH) (simp add: Cons.prems)
  ultimately show ?case by (simp split: sum.splits)
qed

lemma resolve_overlap_subset:
  "resolve_overlap terms rs = Inr (Some pruned) \<Longrightarrow> set pruned \<subseteq> set rs"
  by (auto simp: resolve_overlap_def split: if_splits sum.splits)

lemma finish_cong:
  assumes "\<And>m. m \<in> set results \<Longrightarrow> td (vm_matching_term m) = td' (vm_matching_term m)"
  shows "finish terms original_terms s is_text td results =
         finish terms original_terms s is_text td' results"
proof (cases "resolve_overlap terms (sort_key vm_start results)")
  case (Inl e)
  then show ?thesis by (simp add: finish_def)
next
  case (Inr r)
  show ?thesis
  proof (cases r)
    case None
    with Inr show ?thesis by (simp add: finish_def)
  next
    case (Some pruned)
    with Inr resolve_overlap_subset have "set pruned \<subseteq> set results"
      by fastforce
    with assms have "to_values s is_text td pruned = to_values s is_text td' pruned"
      by (intro to_values_cong) auto
    with Inr Some show ?thesis by (simp add: finish_def to_json_def)
  qed
qed

lemma remove_hypotheticals_subset:
  "set (remove_hypotheticals s rs) \<subseteq> set rs"
  by (auto simp: remove_hypotheticals_def Let_def)

lemma extract_value_term:
  "extract_value X t s lo hi d = Inr rs \<Longrightarrow> m \<in> set rs \<Longrightarrow> vm_matching_term m = t"
  using remove_hypotheticals_subset
  by (fastforce simp: extract_value_def split: if_splits sum.splits)

lemma extract_all_terms:
  "extract_all X ts s lo hi d = Inr rs \<Longrightarrow> m \<in> set rs \<Longrightarrow> vm_matching_term m \<in> set ts"
proof (induction ts arbitrary: rs)
  case Nil
  then show ?case by simp
next
  case (Cons t ts)
  from Cons.prems(1) obtain r1 r2 where
    r1: "extract_value X t s lo hi d = Inr r1" and r2: "extract_all X ts s lo hi d = Inr r2"
    and rs: "rs = r1 @ r2"
    by (auto split: sum.splits)
  from Cons.prems(2) rs consider "m \<in> set r1" | "m \<in> set r2" by auto
  then show ?case
  proof cases
    case 1
    with extract_value_term[OF r1] show ?thesis by simp
  next
    case 2
    with Cons.IH[OF r2] show ?thesis by simp
  qed
qed

lemma match_loop_term:
  "m \<in> set (match_loop t s fs bs ms found) \<Longrightarrow> vm_matching_term m = t"
proof (induction ms arbitrary: found)
  case Nil
  then show ?case by simp
next
  case (Cons x ms)
  obtain start words_start match_end where x: "x = (start, words_start, match_end)"
    by (cases x) auto
  from Cons.prems show ?case
    unfolding x
    by (auto simp: Let_def split: option.splits if_splits dest: Cons.IH)
qed

lemma extract_enumlist_terms:
  "m \<in> set (extract_enumlist_values ts s fs) \<Longrightarrow> vm_matching_term m \<in> set ts"
  by (auto simp: extract_enumlist_values_def Let_def split: if_splits dest: match_loop_term)

lemma table_agree:
  assumes "length terms = length original_terms" and "k \<in> set terms"
  shows "fold (\<lambda>(new_term, original_term) d. d(new_term \<mapsto> original_term))
              (zip terms original_terms) d k =
         fold (\<lambda>(new_term, original_term) d. d(new_term \<mapsto> original_term))
              (zip terms original_terms) d' k"
proof -
  from assms have "k \<in> fst ` set (zip terms original_terms)"
    by (metis map_fst_zip set_map)
  then show ?thesis by (rule fold_upd_agree)
qed

text \<open>
  C9. \<open>run\<close> writes every cleaned term of the call into \<open>_term_dict\<close> before it reads the
  table, and it reads the table only at the matching terms of its results, which are
  terms of the call. So the returned value is the same for every state the table is in
  when the call starts, in particular for the state an earlier call with the same
  arguments left behind. The pattern matching, the external finders and \<open>float\<close> are
  functions of their arguments here, and \<open>json.dumps\<close> of equal dictionaries is the same
  text.
\<close>

theorem run_output_independent_of_table:
  "fst (run X a d) = fst (run X a d') \<and> fst (run X a (snd (run X a d))) = fst (run X a d)"
proof -
  have indep: "fst (run X a d1) = fst (run X a d2)" for d1 d2
  proof (cases "candidates X a")
    case (Inl e)
    then show ?thesis by (simp add: run_def Let_def)
  next
    case (Inr results)
    let ?td = "\<lambda>d. fold (\<lambda>(new_term, original_term) d. d(new_term \<mapsto> original_term))
                       (zip (terms_of a) (original_terms_of a)) d"
    have len: "length (terms_of a) = length (original_terms_of a)"
      by (simp add: terms_of_def Let_def)
    have agree: "?td d1 k = ?td d2 k" if "k \<in> set (terms_of a)" for k
      using table_agree[OF len that] .
    have terms: "vm_matching_term m \<in> set (terms_of a)" if "m \<in> set results" for m
    proof (cases "truthy (enumlist a)")
      case True
      with Inr that show ?thesis
        by (auto simp: candidates_def extract_results_def dest: extract_enumlist_terms)
    next
      case False
      with Inr obtain lo hi where
        "extract_all X (terms_of a) (clean_sentence X (sentence a) (is_case_sensitive a))
           lo hi (is_denom_only a) = Inr results"
        by (auto simp: candidates_def extract_results_def split: sum.splits)
      from extract_all_terms[OF this that] show ?thesis .
    qed
    have "finish (terms_of a) (original_terms_of a) (sentence a) (truthy (enumlist a))
            (?td d1) results =
          finish (terms_of a) (original_terms_of a) (sentence a) (truthy (enumlist a))
            (?td d2) results"
      by (rule finish_cong) (use terms agree in blast)
    with Inr show ?thesis by (simp add: run_def Let_def)
  qed
  show ?thesis using indep[of d d'] indep[of "snd (run X a d)" d] by simp
qed

section \<open>Claim C6: what is returned when nothing is found\<close>






end
